theory Spec2Isabelle
  imports Main
begin

section \<open>Python values, strings and errors\<close>

text \<open>
  The notebook \<open>biosearch_scraper.ipynb\<close> is Python. Its values are modelled by
  \<open>pyval\<close>: strings, unbounded integers and lists, which are the shapes of the
  arguments of the two functions and of the fields they read. A Python string is a
  \<open>string\<close> whose characters are read as code points below 256. A dictionary
  is a partial map from key strings to values.
\<close>

datatype pyval = PStr string | PInt int | PList "pyval list"

type_synonym pydict = "string \<rightharpoonup> pyval"

text \<open>
  Exceptions are values: \<open>KeyError k\<close> is raised by \<open>d[k]\<close> on a missing key,
  \<open>TypeError\<close> by \<open>str.join\<close> on an argument that is not an iterable of strings,
  and \<open>EntrezError\<close> stands for whatever \<open>Entrez.esearch\<close>, \<open>Entrez.esummary\<close>
  or \<open>Entrez.read\<close> raise (transport failure, undecodable payload).
\<close>

datatype error = KeyError string | TypeError | EntrezError string

text \<open>
  The class of an exception, as \<open>type(e).__name__\<close> gives it; an \<open>EntrezError\<close> carries
  the name of the class the library raised. \<open>raised r\<close> is the class of the exception
  an outcome \<open>r\<close> ended with, if it ended with one.
\<close>

fun exception_name :: "error \<Rightarrow> string" where
  "exception_name (KeyError k) = ''KeyError''"
| "exception_name TypeError = ''TypeError''"
| "exception_name (EntrezError name) = name"

fun raised :: "error + 'a \<Rightarrow> string option" where
  "raised (Inl e) = Some (exception_name e)"
| "raised (Inr v) = None"

subsection \<open>\<open>str\<close> and \<open>repr\<close>\<close>

definition hex_digit :: "nat \<Rightarrow> char" where
  "hex_digit n = ''0123456789abcdef'' ! (n mod 16)"

definition hex_escape :: "char \<Rightarrow> string" where
  "hex_escape ch =
     [CHR 0x5C, CHR ''x'', hex_digit (of_char ch div 16), hex_digit (of_char ch mod 16)]"

text \<open>
  Printable code points between 128 and 255: all but the C1 controls, the no-break
  space and the soft hyphen.
\<close>

definition latin1_printable :: "char \<Rightarrow> bool" where
  "latin1_printable ch =
     (let n = (of_char ch :: nat) in 160 < n \<and> n \<noteq> 173)"

text \<open>One character of \<open>repr\<close> of a string, inside the chosen quote.\<close>

definition repr_char :: "char \<Rightarrow> char \<Rightarrow> string" where
  "repr_char quote ch =
     (if ch = quote \<or> ch = CHR 0x5C then [CHR 0x5C, ch]
      else if ch = CHR 0x09 then [CHR 0x5C, CHR ''t'']
      else if ch = CHR 0x0A then [CHR 0x5C, CHR ''n'']
      else if ch = CHR 0x0D then [CHR 0x5C, CHR ''r'']
      else if (of_char ch :: nat) < 32 \<or> (of_char ch :: nat) = 127 then hex_escape ch
      else if (of_char ch :: nat) < 127 then [ch]
      else if latin1_printable ch then [ch]
      else hex_escape ch)"

text \<open>
  \<open>repr\<close> of a string: single quotes, unless the string holds a single quote and no
  double quote.
\<close>

definition str_repr :: "string \<Rightarrow> string" where
  "str_repr s =
     (let quote = (if CHR 0x27 \<in> set s \<and> CHR 0x22 \<notin> set s then CHR 0x22 else CHR 0x27)
      in [quote] @ concat (map (repr_char quote) s) @ [quote])"

definition digit_char :: "nat \<Rightarrow> char" where
  "digit_char n = ''0123456789'' ! (n mod 10)"

fun nat_str :: "nat \<Rightarrow> string" where
  "nat_str n = (if n < 10 then [digit_char n] else nat_str (n div 10) @ [digit_char (n mod 10)])"

definition int_str :: "int \<Rightarrow> string" where
  "int_str i = (if i < 0 then CHR ''-'' # nat_str (nat (- i)) else nat_str (nat i))"

text \<open>\<open>sep.join(xs)\<close> on a list of strings.\<close>

fun join_sep :: "string \<Rightarrow> string list \<Rightarrow> string" where
  "join_sep sep [] = []"
| "join_sep sep [x] = x"
| "join_sep sep (x # y # ys) = x @ sep @ join_sep sep (y # ys)"

fun py_repr :: "pyval \<Rightarrow> string" where
  "py_repr (PStr s) = str_repr s"
| "py_repr (PInt i) = int_str i"
| "py_repr (PList xs) = ''['' @ join_sep '', '' (map py_repr xs) @ '']''"

text \<open>
  \<open>str(v)\<close>, which is also what a replacement field \<open>{v}\<close> of an f-string renders:
  a string is itself, an integer and a list are their \<open>repr\<close>.
\<close>

fun py_str :: "pyval \<Rightarrow> string" where
  "py_str (PStr s) = s"
| "py_str v = py_repr v"


subsection \<open>Dictionary access and \<open>str.join\<close>\<close>

text \<open>\<open>d[k]\<close> raises \<open>KeyError\<close> on a missing key; \<open>d.get(k, default)\<close> does not.\<close>

definition getitem :: "pydict \<Rightarrow> string \<Rightarrow> error + pyval" where
  "getitem d k = (case d k of None \<Rightarrow> Inl (KeyError k) | Some v \<Rightarrow> Inr v)"

definition get_default :: "pydict \<Rightarrow> string \<Rightarrow> pyval \<Rightarrow> pyval" where
  "get_default d k dflt = (case d k of None \<Rightarrow> dflt | Some v \<Rightarrow> v)"

text \<open>
  \<open>sep.join(v)\<close>: every item of the iterable must be a string. Iterating over a
  string yields its characters; an integer is not iterable.
\<close>

fun str_items :: "pyval list \<Rightarrow> error + string list" where
  "str_items [] = Inr []"
| "str_items (PStr s # vs) =
     (case str_items vs of Inl e \<Rightarrow> Inl e | Inr ss \<Rightarrow> Inr (s # ss))"
| "str_items (v # vs) = Inl TypeError"

fun str_join :: "string \<Rightarrow> pyval \<Rightarrow> error + string" where
  "str_join sep (PList vs) =
     (case str_items vs of Inl e \<Rightarrow> Inl e | Inr ss \<Rightarrow> Inr (join_sep sep ss))"
| "str_join sep (PStr s) = Inr (join_sep sep (map (\<lambda>c. [c]) s))"
| "str_join sep (PInt i) = Inl TypeError"

section \<open>The Entrez service\<close>

text \<open>
  \<open>Bio.Entrez\<close> is not part of the repository: it is a parameter of the model.
  \<open>esearch_read E db term retmax\<close> is \<open>Entrez.read(Entrez.esearch(db=db, term=term,
  retmax=retmax))\<close>, a dictionary or an exception; \<open>esummary_read E db id\<close> is
  \<open>Entrez.read(Entrez.esummary(db=db, id=id))\<close>, a list of summary records. The
  requests a function sends are returned beside its result.
\<close>

datatype request = ESearch string string int | ESummary string string

record entrez =
  esearch_read :: "string \<Rightarrow> string \<Rightarrow> int \<Rightarrow> error + pydict"
  esummary_read :: "string \<Rightarrow> string \<Rightarrow> error + pydict list"

section \<open>The notebook's functions\<close>

text \<open>
  \<open>search_articles(key_words, date, max_results=10)\<close>. An omitted \<open>max_results\<close>
  is \<open>None\<close> here and takes the default of the signature.
\<close>

definition search_articles ::
  "entrez \<Rightarrow> pyval \<Rightarrow> pyval \<Rightarrow> int option \<Rightarrow> request list \<times> (error + pyval)" where
  "search_articles E key_words date max_results =
     (let retmax = (case max_results of None \<Rightarrow> 10 | Some n \<Rightarrow> n);
          term = py_str key_words @ ''[Title/Abstract] AND '' @ py_str date @ ''[PDAT]''
      in ([ESearch ''pubmed'' term retmax],
          case esearch_read E ''pubmed'' term retmax of
            Inl e \<Rightarrow> Inl e
          | Inr record_search \<Rightarrow> getitem record_search ''IdList''))"

text \<open>
  The dictionary literal in the loop of \<open>article_details\<close>. Its entries are evaluated
  in order, so the first missing required key is the one \<open>KeyError\<close> names.
\<close>

definition article_info :: "pydict \<Rightarrow> error + pydict" where
  "article_info article =
     (case getitem article ''Id'' of Inl e \<Rightarrow> Inl e | Inr aid \<Rightarrow>
     (case getitem article ''Title'' of Inl e \<Rightarrow> Inl e | Inr title \<Rightarrow>
     (case getitem article ''AuthorList'' of Inl e \<Rightarrow> Inl e | Inr author_list \<Rightarrow>
     (case getitem article ''PubDate'' of Inl e \<Rightarrow> Inl e | Inr pub_date \<Rightarrow>
     (case getitem article ''Id'' of Inl e \<Rightarrow> Inl e | Inr link_id \<Rightarrow>
        Inr (Map.empty
              (''ID'' \<mapsto> aid,
               ''Title'' \<mapsto> title,
               ''AuthorList'' \<mapsto> author_list,
               ''PubDate'' \<mapsto> pub_date,
               ''DOI'' \<mapsto> get_default article ''DOI'' (PStr ''No disponible''),
               ''Link PubMed'' \<mapsto>
                  PStr (''https://www.ncbi.nlm.nih.gov/pubmed/'' @ py_str link_id))))))))"

text \<open>
  The loop \<open>for article in record_summary\<close>, with the list \<open>articles_info\<close> it
  appends to. An exception in the body leaves the loop and the function.
\<close>

fun article_loop :: "pydict list \<Rightarrow> pydict list \<Rightarrow> error + pydict list" where
  "article_loop [] articles_info = Inr articles_info"
| "article_loop (article # record_summary) articles_info =
     (case article_info article of
        Inl e \<Rightarrow> Inl e
      | Inr info \<Rightarrow> article_loop record_summary (articles_info @ [info]))"

definition article_details :: "entrez \<Rightarrow> pyval \<Rightarrow> request list \<times> (error + pydict list)" where
  "article_details E id_list =
     (case str_join '','' id_list of
        Inl e \<Rightarrow> ([], Inl e)
      | Inr ids \<Rightarrow>
          ([ESummary ''pubmed'' ids],
           case esummary_read E ''pubmed'' ids of
             Inl e \<Rightarrow> Inl e
           | Inr record_summary \<Rightarrow> article_loop record_summary []))"



section \<open>Vocabulary of the properties\<close>

text \<open>The fields \<open>article_details\<close> reads with \<open>article[...]\<close> are all present.\<close>

definition has_required :: "pydict \<Rightarrow> bool" where
  "has_required article \<longleftrightarrow>
     article ''Id'' \<noteq> None \<and> article ''Title'' \<noteq> None \<and>
     article ''AuthorList'' \<noteq> None \<and> article ''PubDate'' \<noteq> None"

text \<open>
  The first required key a record lacks, in the order in which the dictionary literal
  of \<open>article_details\<close> reads them.
\<close>

definition first_missing :: "pydict \<Rightarrow> string option" where
  "first_missing article =
     (if article ''Id'' = None then Some ''Id''
      else if article ''Title'' = None then Some ''Title''
      else if article ''AuthorList'' = None then Some ''AuthorList''
      else if article ''PubDate'' = None then Some ''PubDate''
      else None)"

text \<open>
  What the E-utilities promise and the notebook relies on. A successful search answers
  with an \<open>IdList\<close> of at most \<open>retmax\<close> entries (\<open>honours_retmax\<close>); moreover the
  entries are identifiers, each a non-empty string of decimal digits
  (\<open>esearch_contract\<close>). A successful summary request answers with at most one record
  per identifier of the comma-separated \<open>id\<close> string (\<open>esummary_contract\<close>).
\<close>

definition honours_retmax :: "entrez \<Rightarrow> bool" where
  "honours_retmax E \<longleftrightarrow>
     (\<forall>db term retmax record_search.
        esearch_read E db term retmax = Inr record_search \<longrightarrow>
        (\<exists>found. record_search ''IdList'' = Some (PList found) \<and>
                 int (length found) \<le> max 0 retmax))"

definition esearch_contract :: "entrez \<Rightarrow> bool" where
  "esearch_contract E \<longleftrightarrow>
     (\<forall>db term retmax record_search.
        esearch_read E db term retmax = Inr record_search \<longrightarrow>
        (\<exists>uids. record_search ''IdList'' = Some (PList (map PStr uids)) \<and>
                int (length uids) \<le> max 0 retmax \<and>
                (\<forall>u \<in> set uids. u \<noteq> [] \<and> set u \<subseteq> set ''0123456789'')))"


text \<open>
  A service with fixed content, for concrete runs: every search is answered with the
  first \<open>retmax\<close> of \<open>uids\<close>, every summary request with as many of \<open>docsums\<close> as
  identifiers were asked for.
\<close>

definition canned_entrez :: "string list \<Rightarrow> pydict list \<Rightarrow> entrez" where
  "canned_entrez uids docsums =
     \<lparr>esearch_read = (\<lambda>db term retmax. Inr (Map.empty(''IdList'' \<mapsto> PList (map PStr (take (nat retmax) uids))))),
      esummary_read = (\<lambda>db ids. Inr (take (Suc (count_list ids (CHR '',''))) docsums))\<rparr>"

text \<open>
  The first three records of the run recorded in the notebook (titles and author lists
  shortened). The third has no \<open>DOI\<close>.
\<close>

definition recorded_uids :: "string list" where
  "recorded_uids = [''38370347'', ''38328712'', ''38303306'']"

definition recorded_docsums :: "pydict list" where
  "recorded_docsums =
     [Map.empty(''Id'' \<mapsto> PStr ''38370347'',
                ''Title'' \<mapsto> PStr ''Neurotoxicity-sparing radiotherapy'',
                ''AuthorList'' \<mapsto> PList [PStr ''Buczek D'', PStr ''Zaucha R'', PStr ''Jassem J''],
                ''PubDate'' \<mapsto> PStr ''2023'',
                ''DOI'' \<mapsto> PStr ''10.3389/fonc.2023.1215426''),
      Map.empty(''Id'' \<mapsto> PStr ''38328712'',
                ''Title'' \<mapsto> PStr ''Experimental models for cancer brain metastasis.'',
                ''AuthorList'' \<mapsto> PList [PStr ''Liu Z'', PStr ''Dong S''],
                ''PubDate'' \<mapsto> PStr ''2024 Jan'',
                ''DOI'' \<mapsto> PStr ''10.1016/j.cpt.2023.10.005''),
      Map.empty(''Id'' \<mapsto> PStr ''38303306'',
                ''Title'' \<mapsto> PStr ''A Case of Breast Cancer Brain Metastases'',
                ''AuthorList'' \<mapsto> PList [PStr ''Hikino H'', PStr ''Otani A''],
                ''PubDate'' \<mapsto> PStr ''2023 Dec'')]"

text \<open>
  The same batch with the title and the publication date of the second record lost,
  and the same batch with the publication date of the third record lost.
\<close>

definition damaged_docsums :: "pydict list" where
  "damaged_docsums =
     [recorded_docsums ! 0,
      (recorded_docsums ! 1)(''Title'' := None, ''PubDate'' := None),
      recorded_docsums ! 2]"

definition undated_docsums :: "pydict list" where
  "undated_docsums =
     [recorded_docsums ! 0, recorded_docsums ! 1, (recorded_docsums ! 2)(''PubDate'' := None)]"

text \<open>
  A service that does not look at \<open>retmax\<close>: every search is answered with all of
  \<open>uids\<close>.
\<close>

definition greedy_entrez :: "string list \<Rightarrow> pydict list \<Rightarrow> entrez" where
  "greedy_entrez uids docsums =
     \<lparr>esearch_read = (\<lambda>db term retmax. Inr (Map.empty(''IdList'' \<mapsto> PList (map PStr uids)))),
      esummary_read = (\<lambda>db ids. Inr (take (Suc (count_list ids (CHR '',''))) docsums))\<rparr>"


section \<open>Joining two tables\<close>

text \<open>
  Modelled from the spec: the join of the Tabulator, whose code (the example combining
  the two statistics sources) is not among the source files. A table is an ordered
  sequence of records. Two tables are joined on a named key field by an equality match;
  the default inner join keeps matching keys only, nothing is deduplicated, duplicate
  keys on either side give a row per match, and a joined row has the columns of both
  sides.
\<close>

definition join_tables :: "pydict list \<Rightarrow> pydict list \<Rightarrow> string \<Rightarrow> pydict list" where
  "join_tables A B K = [a ++ b. a \<leftarrow> A, b \<leftarrow> B, a K \<noteq> None \<and> a K = b K]"

text \<open>Two monthly series keyed on \<open>date\<close>; the second has a month the first lacks.\<close>

definition series_a :: "pydict list" where
  "series_a =
     [Map.empty(''date'' \<mapsto> PStr ''2023-01'', ''ine'' \<mapsto> PInt 101),
      Map.empty(''date'' \<mapsto> PStr ''2023-02'', ''ine'' \<mapsto> PInt 102)]"

definition series_b :: "pydict list" where
  "series_b =
     [Map.empty(''date'' \<mapsto> PStr ''2023-01'', ''eu'' \<mapsto> PInt 201),
      Map.empty(''date'' \<mapsto> PStr ''2023-02'', ''eu'' \<mapsto> PInt 202),
      Map.empty(''date'' \<mapsto> PStr ''2023-03'', ''eu'' \<mapsto> PInt 203)]"


section \<open>Lemmas on the record loop\<close>

lemma article_info_ok:
  assumes "has_required article"
  shows "\<exists>info. article_info article = Inr info"
  using assms by (auto simp: has_required_def article_info_def getitem_def)

lemma getitem_None: "d k = None \<Longrightarrow> getitem d k = Inl (KeyError k)"
  by (simp add: getitem_def)

lemma getitem_Some: "d k = Some v \<Longrightarrow> getitem d k = Inr v"
  by (simp add: getitem_def)

lemma article_info_fails:
  assumes "\<not> has_required article"
  shows "\<exists>k \<in> {''Id'', ''Title'', ''AuthorList'', ''PubDate''}.
           article k = None \<and> article_info article = Inl (KeyError k)"
proof -
  consider "article ''Id'' = None"
    | v where "article ''Id'' = Some v" "article ''Title'' = None"
    | v w where "article ''Id'' = Some v" "article ''Title'' = Some w"
        "article ''AuthorList'' = None"
    | v w x where "article ''Id'' = Some v" "article ''Title'' = Some w"
        "article ''AuthorList'' = Some x" "article ''PubDate'' = None"
    using assms unfolding has_required_def by blast
  then show ?thesis
    by cases (simp_all add: article_info_def getitem_None getitem_Some)
qed

lemma article_info_required:
  assumes "article_info article = Inr info"
  shows "has_required article"
  using assms article_info_fails [of article] by (cases "has_required article") auto

lemma article_info_fields:
  assumes "article_info article = Inr info"
  shows "dom info = {''ID'', ''Title'', ''AuthorList'', ''PubDate'', ''DOI'', ''Link PubMed''}"
  using assms
  by (auto simp: article_info_def getitem_def split: option.splits if_splits)

lemma article_info_values:
  assumes "article_info article = Inr info"
  shows "info ''ID'' = article ''Id''" "info ''Title'' = article ''Title''"
    "info ''AuthorList'' = article ''AuthorList''" "info ''PubDate'' = article ''PubDate''"
    "info ''DOI'' = Some (get_default article ''DOI'' (PStr ''No disponible''))"
    "\<exists>v. article ''Id'' = Some v \<and>
       info ''Link PubMed'' = Some (PStr (''https://www.ncbi.nlm.nih.gov/pubmed/'' @ py_str v))"
  using assms
  by (auto simp: article_info_def getitem_def split: option.splits)

lemma article_loop_Inr:
  "article_loop record_summary acc = Inr rows \<longleftrightarrow>
     (\<exists>infos. map article_info record_summary = map Inr infos \<and> rows = acc @ infos)"
proof (induction record_summary arbitrary: acc)
  case Nil
  then show ?case by auto
next
  case (Cons article rest)
  show ?case
  proof (cases "article_info article")
    case (Inl e)
    then show ?thesis by (auto simp: map_eq_Cons_conv)
  next
    case (Inr info)
    then show ?thesis using Cons.IH [of "acc @ [info]"]
      by (auto simp: map_eq_Cons_conv)
  qed
qed

lemma article_loop_ok:
  assumes "\<forall>a \<in> set record_summary. has_required a"
  shows "\<exists>rows. article_loop record_summary acc = Inr rows"
  using assms
proof (induction record_summary arbitrary: acc)
  case Nil
  then show ?case by simp
next
  case (Cons article rest)
  then obtain info where "article_info article = Inr info"
    using article_info_ok [of article] by auto
  then show ?case using Cons by simp
qed

lemma article_details_fetch:
  assumes "str_join '','' id_list = Inr ids"
    and "esummary_read E ''pubmed'' ids = Inr record_summary"
  shows "article_details E id_list = ([ESummary ''pubmed'' ids], article_loop record_summary [])"
  using assms by (simp add: article_details_def)

lemma article_details_rows:
  assumes "str_join '','' id_list = Inr ids"
    and "esummary_read E ''pubmed'' ids = Inr record_summary"
    and "snd (article_details E id_list) = Inr rows"
  shows "map article_info record_summary = map Inr rows"
  using assms by (simp add: article_details_fetch article_loop_Inr)


lemma canned_summary:
  "esummary_read (canned_entrez uids docsums) db ids =
     Inr (take (Suc (count_list ids (CHR '',''))) docsums)"
  by (simp add: canned_entrez_def)

lemma canned_search:
  "esearch_read (canned_entrez uids docsums) db t n =
     Inr (Map.empty(''IdList'' \<mapsto> PList (map PStr (take (nat n) uids))))"
  by (simp add: canned_entrez_def)

lemma recorded_join:
  "str_join '','' (PList (map PStr recorded_uids)) = Inr ''38370347,38328712,38303306''"
  by (simp add: recorded_uids_def)

lemma recorded_summary:
  "esummary_read (canned_entrez recorded_uids docsums) ''pubmed'' ''38370347,38328712,38303306''
     = Inr (take 3 docsums)"
  by (simp add: canned_summary numeral_3_eq_3)

lemma recorded_required: "\<forall>a \<in> set recorded_docsums. has_required a"
  by (simp add: recorded_docsums_def has_required_def)


lemma damaged_details:
  "snd (article_details (canned_entrez recorded_uids damaged_docsums) (PList (map PStr recorded_uids)))
   = Inl (KeyError ''Title'')"
  by (simp add: article_details_fetch [OF recorded_join recorded_summary]
      damaged_docsums_def recorded_docsums_def article_info_def getitem_def get_default_def)


lemma recorded_summary_all:
  "esummary_read (canned_entrez recorded_uids recorded_docsums) ''pubmed''
     ''38370347,38328712,38303306'' = Inr recorded_docsums"
  by (simp add: recorded_summary recorded_docsums_def)

lemma damaged_summary_all:
  "esummary_read (canned_entrez recorded_uids damaged_docsums) ''pubmed''
     ''38370347,38328712,38303306'' = Inr damaged_docsums"
  by (simp add: recorded_summary damaged_docsums_def)

lemma damaged_not_required: "\<exists>a \<in> set damaged_docsums. \<not> has_required a"
  by (simp add: damaged_docsums_def recorded_docsums_def has_required_def)

lemma recorded_no_doi: "(recorded_docsums ! 2) ''DOI'' = None"
  by (simp add: recorded_docsums_def)

lemma map_Inr_nth:
  assumes "map f xs = map Inr ys" and "i < length xs"
  shows "f (xs ! i) = Inr (ys ! i)" and "length ys = length xs"
proof -
  show len: "length ys = length xs" using assms(1) by (metis length_map)
  have "map f xs ! i = map Inr ys ! i" using assms(1) by simp
  then show "f (xs ! i) = Inr (ys ! i)" using assms(2) len by simp
qed

lemma article_loop_first_failure:
  assumes "i < length record_summary"
    and "\<forall>j < i. has_required (record_summary ! j)"
    and "article_info (record_summary ! i) = Inl e"
  shows "article_loop record_summary acc = Inl e"
  using assms
proof (induction record_summary arbitrary: i acc)
  case Nil
  then show ?case by simp
next
  case (Cons article rest)
  show ?case
  proof (cases i)
    case 0
    then show ?thesis using Cons.prems(3) by simp
  next
    case (Suc n)
    then have "has_required article" using Cons.prems(2) by auto
    then obtain info where info: "article_info article = Inr info"
      using article_info_ok by blast
    have "n < length rest" using Cons.prems(1) Suc by simp
    moreover have "\<forall>j < n. has_required (rest ! j)"
      using Cons.prems(2) Suc by auto
    moreover have "article_info (rest ! n) = Inl e" using Cons.prems(3) Suc by simp
    ultimately have "article_loop rest (acc @ [info]) = Inl e"
      by (rule Cons.IH)
    then show ?thesis using info by simp
  qed
qed

lemma first_missing_None: "first_missing article = None \<longleftrightarrow> has_required article"
  by (simp add: first_missing_def has_required_def)

lemma first_missing_Some:
  assumes "first_missing article = Some k"
  shows "k \<in> {''Id'', ''Title'', ''AuthorList'', ''PubDate''}" and "article k = None"
  using assms by (auto simp: first_missing_def split: if_splits)

lemma article_info_first_missing:
  assumes "first_missing article = Some k"
  shows "article_info article = Inl (KeyError k)"
proof -
  consider "article ''Id'' = None" "k = ''Id''"
    | v where "article ''Id'' = Some v" "article ''Title'' = None" "k = ''Title''"
    | v w where "article ''Id'' = Some v" "article ''Title'' = Some w"
        "article ''AuthorList'' = None" "k = ''AuthorList''"
    | v w x where "article ''Id'' = Some v" "article ''Title'' = Some w"
        "article ''AuthorList'' = Some x" "article ''PubDate'' = None" "k = ''PubDate''"
    using assms unfolding first_missing_def by (auto split: if_splits)
  then show ?thesis
    by cases (simp_all add: article_info_def getitem_None getitem_Some)
qed

lemma first_malformed_index:
  assumes "\<exists>a \<in> set record_summary. \<not> has_required a"
  shows "\<exists>i < length record_summary.
           (\<forall>j < i. has_required (record_summary ! j)) \<and> \<not> has_required (record_summary ! i)"
  using assms
proof (induction record_summary)
  case Nil
  then show ?case by simp
next
  case (Cons article rest)
  show ?case
  proof (cases "has_required article")
    case False
    then show ?thesis by (intro exI [of _ 0]) simp
  next
    case True
    then have "\<exists>a \<in> set rest. \<not> has_required a" using Cons.prems by simp
    then obtain i where i: "i < length rest" "\<forall>j < i. has_required (rest ! j)"
      "\<not> has_required (rest ! i)"
      using Cons.IH by blast
    have "\<forall>j < Suc i. has_required ((article # rest) ! j)"
    proof (intro allI impI)
      fix j
      assume "j < Suc i"
      then show "has_required ((article # rest) ! j)"
        using True i(2) by (cases j) simp_all
    qed
    then show ?thesis using i(1,3) by (intro exI [of _ "Suc i"]) simp
  qed
qed

lemma details_abort:
  assumes "str_join '','' id_list = Inr ids"
    and "esummary_read E ''pubmed'' ids = Inr record_summary"
    and "i < length record_summary"
    and "\<forall>j < i. has_required (record_summary ! j)"
    and "first_missing (record_summary ! i) = Some k"
  shows "snd (article_details E id_list) = Inl (KeyError k)"
  using article_loop_first_failure [OF assms(3,4) article_info_first_missing [OF assms(5)]]
    article_details_fetch [OF assms(1,2)]
  by simp

lemma undated_summary_all:
  "esummary_read (canned_entrez recorded_uids undated_docsums) ''pubmed''
     ''38370347,38328712,38303306'' = Inr undated_docsums"
  by (simp add: recorded_summary undated_docsums_def)

lemma undated_details:
  "snd (article_details (canned_entrez recorded_uids undated_docsums) (PList (map PStr recorded_uids)))
   = Inl (KeyError ''PubDate'')"
  by (simp add: article_details_fetch [OF recorded_join recorded_summary]
      undated_docsums_def recorded_docsums_def article_info_def getitem_def get_default_def)

section \<open>Properties of \<open>article_details\<close>\<close>

text \<open>
  C2, as amended. Missing-field policy. Let \<open>record_summary\<close> be the records the
  service answers with. If every record has the required fields \<open>Id\<close>, \<open>Title\<close>,
  \<open>AuthorList\<close> and \<open>PubDate\<close>, the call does not fail and a record without \<open>DOI\<close> gives a
  row whose \<open>DOI\<close> is the sentinel \<open>No disponible\<close>. If some record lacks a required
  field, the call fails with Python's \<open>KeyError\<close>, naming the first required key that
  the first such record lacks; the notebook has no \<open>ParseError\<close>.
\<close>

theorem missing_field_policy:
  assumes "str_join '','' id_list = Inr ids"
    and "esummary_read E ''pubmed'' ids = Inr record_summary"
  shows "((\<forall>a \<in> set record_summary. has_required a) \<longrightarrow>
            (\<exists>rows. snd (article_details E id_list) = Inr rows \<and>
               length rows = length record_summary \<and>
               (\<forall>i < length record_summary.
                  (record_summary ! i) ''DOI'' = None \<longrightarrow>
                  (rows ! i) ''DOI'' = Some (PStr ''No disponible'')))) \<and>
         ((\<exists>a \<in> set record_summary. \<not> has_required a) \<longrightarrow>
            (\<exists>i k. i < length record_summary \<and>
               (\<forall>j < i. has_required (record_summary ! j)) \<and>
               first_missing (record_summary ! i) = Some k \<and>
               snd (article_details E id_list) = Inl (KeyError k) \<and>
               raised (snd (article_details E id_list)) = Some ''KeyError''))"
proof (intro conjI impI)
  assume "\<forall>a \<in> set record_summary. has_required a"
  then obtain rows where rows: "snd (article_details E id_list) = Inr rows"
    using article_loop_ok [of record_summary "[]"] article_details_fetch [OF assms] by auto
  have infos: "map article_info record_summary = map Inr rows"
    using article_details_rows [OF assms rows] .
  have "(rows ! i) ''DOI'' = Some (PStr ''No disponible'')"
    if "i < length record_summary" and "(record_summary ! i) ''DOI'' = None" for i
  proof -
    have "article_info (record_summary ! i) = Inr (rows ! i)"
      using map_Inr_nth(1) [OF infos that(1)] .
    then have "(rows ! i) ''DOI'' =
        Some (get_default (record_summary ! i) ''DOI'' (PStr ''No disponible''))"
      by (rule article_info_values(5))
    then show ?thesis
      using that(2) by (simp add: get_default_def)
  qed
  moreover have "length rows = length record_summary"
    using infos by (metis length_map)
  ultimately show "\<exists>rows. snd (article_details E id_list) = Inr rows \<and>
      length rows = length record_summary \<and>
      (\<forall>i < length record_summary.
         (record_summary ! i) ''DOI'' = None \<longrightarrow>
         (rows ! i) ''DOI'' = Some (PStr ''No disponible''))"
    using rows by blast
next
  assume "\<exists>a \<in> set record_summary. \<not> has_required a"
  then obtain i where i: "i < length record_summary"
    and before: "\<forall>j < i. has_required (record_summary ! j)"
    and here: "\<not> has_required (record_summary ! i)"
    using first_malformed_index by blast
  obtain k where k: "first_missing (record_summary ! i) = Some k"
    using here first_missing_None [of "record_summary ! i"] by (cases "first_missing (record_summary ! i)") auto
  have failed: "snd (article_details E id_list) = Inl (KeyError k)"
    using assms i before k by (rule details_abort)
  then have "raised (snd (article_details E id_list)) = Some ''KeyError''" by simp
  then show "\<exists>i k. i < length record_summary \<and>
      (\<forall>j < i. has_required (record_summary ! j)) \<and>
      first_missing (record_summary ! i) = Some k \<and>
      snd (article_details E id_list) = Inl (KeyError k) \<and>
      raised (snd (article_details E id_list)) = Some ''KeyError''"
    using i before k failed by blast
qed

theorem missing_field_policy_witness:
  "(\<exists>rows. snd (article_details (canned_entrez recorded_uids recorded_docsums)
                (PList (map PStr recorded_uids))) = Inr rows \<and>
            length rows = 3 \<and> (rows ! 2) ''DOI'' = Some (PStr ''No disponible'')) \<and>
   (\<exists>k. snd (article_details (canned_entrez recorded_uids damaged_docsums)
                (PList (map PStr recorded_uids))) = Inl (KeyError k)) \<and>
   raised (snd (article_details (canned_entrez recorded_uids damaged_docsums)
                (PList (map PStr recorded_uids)))) = Some ''KeyError''"
proof -
  note sound = missing_field_policy [OF recorded_join recorded_summary_all]
  note broken = missing_field_policy [OF recorded_join damaged_summary_all]
  have "\<exists>rows. snd (article_details (canned_entrez recorded_uids recorded_docsums)
        (PList (map PStr recorded_uids))) = Inr rows \<and>
      length rows = length recorded_docsums \<and>
      (\<forall>i < length recorded_docsums.
         (recorded_docsums ! i) ''DOI'' = None \<longrightarrow>
         (rows ! i) ''DOI'' = Some (PStr ''No disponible''))"
    using sound [THEN conjunct1] recorded_required by (rule mp)
  then obtain rows where rows: "snd (article_details (canned_entrez recorded_uids recorded_docsums)
        (PList (map PStr recorded_uids))) = Inr rows"
    and len: "length rows = length recorded_docsums"
    and sentinel: "\<forall>i < length recorded_docsums.
         (recorded_docsums ! i) ''DOI'' = None \<longrightarrow>
         (rows ! i) ''DOI'' = Some (PStr ''No disponible'')"
    by blast
  have three: "length recorded_docsums = 3" by (simp add: recorded_docsums_def)
  then have "(rows ! 2) ''DOI'' = Some (PStr ''No disponible'')"
    using sentinel recorded_no_doi by simp
  then have first: "\<exists>rows. snd (article_details (canned_entrez recorded_uids recorded_docsums)
        (PList (map PStr recorded_uids))) = Inr rows \<and>
      length rows = 3 \<and> (rows ! 2) ''DOI'' = Some (PStr ''No disponible'')"
    using rows len three by simp
  have "\<exists>i k. i < length damaged_docsums \<and>
      (\<forall>j < i. has_required (damaged_docsums ! j)) \<and>
      first_missing (damaged_docsums ! i) = Some k \<and>
      snd (article_details (canned_entrez recorded_uids damaged_docsums)
        (PList (map PStr recorded_uids))) = Inl (KeyError k) \<and>
      raised (snd (article_details (canned_entrez recorded_uids damaged_docsums)
        (PList (map PStr recorded_uids)))) = Some ''KeyError''"
    using broken [THEN conjunct2] damaged_not_required by (rule mp)
  then have second: "(\<exists>k. snd (article_details (canned_entrez recorded_uids damaged_docsums)
        (PList (map PStr recorded_uids))) = Inl (KeyError k)) \<and>
      raised (snd (article_details (canned_entrez recorded_uids damaged_docsums)
        (PList (map PStr recorded_uids)))) = Some ''KeyError''"
    by blast
  show ?thesis using first second by (rule conjI)
qed

text \<open>
  A batch whose third record has no \<open>PubDate\<close>: the call ends with a \<open>KeyError\<close> for
  \<open>PubDate\<close>, not with a \<open>ParseError\<close>.
\<close>

theorem missing_field_error_counterexample:
  "(undated_docsums ! 2) ''PubDate'' = None \<and>
   snd (article_details (canned_entrez recorded_uids undated_docsums)
        (PList (map PStr recorded_uids))) = Inl (KeyError ''PubDate'') \<and>
   raised (snd (article_details (canned_entrez recorded_uids undated_docsums)
        (PList (map PStr recorded_uids)))) = Some ''KeyError'' \<and>
   raised (snd (article_details (canned_entrez recorded_uids undated_docsums)
        (PList (map PStr recorded_uids)))) \<noteq> Some ''ParseError''"
proof -
  have "(undated_docsums ! 2) ''PubDate'' = None" by (simp add: undated_docsums_def)
  then show ?thesis by (simp add: undated_details)
qed


lemma recorded_rows_length:
  "length recorded_docsums = 3"
  by (simp add: recorded_docsums_def)

text \<open>
  C3. Length and schema of the table. Whenever \<open>article_details\<close> builds a table
  from the \<open>N\<close> records the service answers with, the table has exactly \<open>N\<close> rows and
  every row has exactly the fields \<open>ID\<close>, \<open>Title\<close>, \<open>AuthorList\<close>, \<open>PubDate\<close>, \<open>DOI\<close> and
  \<open>Link PubMed\<close>; and it does build one when every record has the required fields.
\<close>

theorem table_rows_and_schema:
  assumes "str_join '','' id_list = Inr ids"
    and "esummary_read E ''pubmed'' ids = Inr record_summary"
  shows "(\<forall>rows. snd (article_details E id_list) = Inr rows \<longrightarrow>
            length rows = length record_summary \<and>
            (\<forall>row \<in> set rows.
               dom row = {''ID'', ''Title'', ''AuthorList'', ''PubDate'', ''DOI'', ''Link PubMed''})) \<and>
         ((\<forall>a \<in> set record_summary. has_required a) \<longrightarrow>
            (\<exists>rows. snd (article_details E id_list) = Inr rows))"
proof (intro conjI allI impI)
  fix rows
  assume rows: "snd (article_details E id_list) = Inr rows"
  have infos: "map article_info record_summary = map Inr rows"
    using article_details_rows [OF assms rows] .
  then show "length rows = length record_summary" by (metis length_map)
  show "\<forall>row \<in> set rows.
      dom row = {''ID'', ''Title'', ''AuthorList'', ''PubDate'', ''DOI'', ''Link PubMed''}"
  proof
    fix row
    assume "row \<in> set rows"
    then have "Inr row \<in> set (map article_info record_summary)"
      using infos by simp
    then obtain article where "article_info article = Inr row" by auto
    then show "dom row = {''ID'', ''Title'', ''AuthorList'', ''PubDate'', ''DOI'', ''Link PubMed''}"
      by (rule article_info_fields)
  qed
next
  assume "\<forall>a \<in> set record_summary. has_required a"
  then show "\<exists>rows. snd (article_details E id_list) = Inr rows"
    using article_loop_ok [of record_summary "[]"] article_details_fetch [OF assms] by simp
qed

theorem table_rows_and_schema_witness:
  "\<exists>rows. snd (article_details (canned_entrez recorded_uids recorded_docsums)
               (PList (map PStr recorded_uids))) = Inr rows \<and>
          length rows = 3 \<and>
          dom (rows ! 0) = {''ID'', ''Title'', ''AuthorList'', ''PubDate'', ''DOI'', ''Link PubMed''} \<and>
          dom (rows ! 2) = {''ID'', ''Title'', ''AuthorList'', ''PubDate'', ''DOI'', ''Link PubMed''}"
proof -
  note claim = table_rows_and_schema [OF recorded_join recorded_summary_all]
  have "\<exists>rows. snd (article_details (canned_entrez recorded_uids recorded_docsums)
      (PList (map PStr recorded_uids))) = Inr rows"
    using claim [THEN conjunct2] recorded_required by (rule mp)
  then obtain rows where rows: "snd (article_details (canned_entrez recorded_uids recorded_docsums)
      (PList (map PStr recorded_uids))) = Inr rows" ..
  have both: "length rows = length recorded_docsums \<and>
      (\<forall>row \<in> set rows.
         dom row = {''ID'', ''Title'', ''AuthorList'', ''PubDate'', ''DOI'', ''Link PubMed''})"
    using claim [THEN conjunct1, THEN spec, THEN mp, OF rows] .
  then have len: "length rows = 3" using recorded_rows_length by simp
  have r0: "rows ! 0 \<in> set rows" and r2: "rows ! 2 \<in> set rows" using len by simp_all
  have d0: "dom (rows ! 0) = {''ID'', ''Title'', ''AuthorList'', ''PubDate'', ''DOI'', ''Link PubMed''}"
    using both [THEN conjunct2, THEN bspec, OF r0] .
  have d2: "dom (rows ! 2) = {''ID'', ''Title'', ''AuthorList'', ''PubDate'', ''DOI'', ''Link PubMed''}"
    using both [THEN conjunct2, THEN bspec, OF r2] .
  show ?thesis
  proof (intro exI conjI)
    show "snd (article_details (canned_entrez recorded_uids recorded_docsums)
      (PList (map PStr recorded_uids))) = Inr rows" by (fact rows)
    show "length rows = 3" by (fact len)
    show "dom (rows ! 0) = {''ID'', ''Title'', ''AuthorList'', ''PubDate'', ''DOI'', ''Link PubMed''}"
      by (fact d0)
    show "dom (rows ! 2) = {''ID'', ''Title'', ''AuthorList'', ''PubDate'', ''DOI'', ''Link PubMed''}"
      by (fact d2)
  qed
qed

text \<open>
  C4, as amended. The function has no handler around the loop body: the first record
  that lacks a required field ends the whole call with the \<open>KeyError\<close> of its first
  missing key (the first of \<open>Id\<close>, \<open>Title\<close>, \<open>AuthorList\<close>, \<open>PubDate\<close> it lacks), and no
  row is returned, not even for the well-formed records before and after it.
\<close>

theorem batch_aborts_at_first_malformed:
  assumes "str_join '','' id_list = Inr ids"
    and "esummary_read E ''pubmed'' ids = Inr record_summary"
    and "i < length record_summary"
    and "\<forall>j < i. has_required (record_summary ! j)"
    and "\<not> has_required (record_summary ! i)"
  shows "\<exists>k \<in> {''Id'', ''Title'', ''AuthorList'', ''PubDate''}.
           (record_summary ! i) k = None \<and>
           first_missing (record_summary ! i) = Some k \<and>
           snd (article_details E id_list) = Inl (KeyError k)"
proof -
  obtain k where k: "first_missing (record_summary ! i) = Some k"
    using assms(5) first_missing_None [of "record_summary ! i"]
    by (cases "first_missing (record_summary ! i)") auto
  have "snd (article_details E id_list) = Inl (KeyError k)"
    using assms(1-4) k by (rule details_abort)
  then show ?thesis using k first_missing_Some [OF k] by blast
qed

lemma damaged_shape:
  "has_required (damaged_docsums ! 0)" "\<not> has_required (damaged_docsums ! 1)"
  "has_required (damaged_docsums ! 2)" "length damaged_docsums = 3"
  by (simp_all add: damaged_docsums_def recorded_docsums_def has_required_def)

lemma damaged_second:
  "first_missing (damaged_docsums ! 1) = Some ''Title''"
  "(damaged_docsums ! 1) ''Title'' = None" "(damaged_docsums ! 1) ''PubDate'' = None"
  by (simp_all add: damaged_docsums_def recorded_docsums_def first_missing_def)

theorem batch_aborts_at_first_malformed_witness:
  "(damaged_docsums ! 1) ''Title'' = None \<and> (damaged_docsums ! 1) ''PubDate'' = None \<and>
   first_missing (damaged_docsums ! 1) = Some ''Title'' \<and>
   snd (article_details (canned_entrez recorded_uids damaged_docsums)
        (PList (map PStr recorded_uids))) = Inl (KeyError ''Title'')"
proof -
  have before: "\<forall>j < 1. has_required (damaged_docsums ! j)" using damaged_shape(1) by simp
  have inside: "1 < length damaged_docsums" using damaged_shape(4) by simp
  obtain k where "first_missing (damaged_docsums ! 1) = Some k"
    and "snd (article_details (canned_entrez recorded_uids damaged_docsums)
        (PList (map PStr recorded_uids))) = Inl (KeyError k)"
    using batch_aborts_at_first_malformed
      [OF recorded_join damaged_summary_all inside before damaged_shape(2)]
    by blast
  then show ?thesis using damaged_second by simp
qed

text \<open>
  A batch of three records in which exactly the second is malformed (no \<open>Title\<close>, no
  \<open>PubDate\<close>): the call returns no row at all.
\<close>

theorem malformed_record_keeps_batch_counterexample:
  "has_required (damaged_docsums ! 0) \<and> \<not> has_required (damaged_docsums ! 1) \<and>
   has_required (damaged_docsums ! 2) \<and> length damaged_docsums = 3 \<and>
   esummary_read (canned_entrez recorded_uids damaged_docsums) ''pubmed''
     ''38370347,38328712,38303306'' = Inr damaged_docsums \<and>
   article_details (canned_entrez recorded_uids damaged_docsums) (PList (map PStr recorded_uids))
     = ([ESummary ''pubmed'' ''38370347,38328712,38303306''], Inl (KeyError ''Title''))"
  using damaged_shape damaged_summary_all damaged_details
    article_details_fetch [OF recorded_join damaged_summary_all]
  by (simp add: prod_eq_iff)

lemma recorded_details_ok:
  "\<exists>rows. snd (article_details (canned_entrez recorded_uids recorded_docsums)
      (PList (map PStr recorded_uids))) = Inr rows"
  using article_loop_ok [OF recorded_required, of "[]"]
    article_details_fetch [OF recorded_join recorded_summary_all]
  by simp

text \<open>
  C5. Round trip of the identity fields. For every source record, the fields \<open>ID\<close>,
  \<open>Title\<close>, \<open>AuthorList\<close> and \<open>PubDate\<close> of the row produced equal the values of \<open>Id\<close>,
  \<open>Title\<close>, \<open>AuthorList\<close> and \<open>PubDate\<close> of the source record, which are all present.
\<close>

theorem identity_fields_round_trip:
  assumes "str_join '','' id_list = Inr ids"
    and "esummary_read E ''pubmed'' ids = Inr record_summary"
    and "snd (article_details E id_list) = Inr rows"
    and "i < length record_summary"
  shows "has_required (record_summary ! i) \<and>
         (rows ! i) ''ID'' = (record_summary ! i) ''Id'' \<and>
         (rows ! i) ''Title'' = (record_summary ! i) ''Title'' \<and>
         (rows ! i) ''AuthorList'' = (record_summary ! i) ''AuthorList'' \<and>
         (rows ! i) ''PubDate'' = (record_summary ! i) ''PubDate''"
proof -
  have "map article_info record_summary = map Inr rows"
    using article_details_rows [OF assms(1-3)] .
  then have built: "article_info (record_summary ! i) = Inr (rows ! i)"
    using assms(4) by (rule map_Inr_nth(1))
  show ?thesis
    using article_info_required [OF built] article_info_values(1-4) [OF built] by simp
qed

theorem identity_fields_round_trip_witness:
  "has_required (recorded_docsums ! 1) \<and>
   (\<exists>rows. snd (article_details (canned_entrez recorded_uids recorded_docsums)
                (PList (map PStr recorded_uids))) = Inr rows \<and>
      (rows ! 1) ''ID'' = Some (PStr ''38328712'') \<and>
      (rows ! 1) ''Title'' = Some (PStr ''Experimental models for cancer brain metastasis.'') \<and>
      (rows ! 1) ''AuthorList'' = Some (PList [PStr ''Liu Z'', PStr ''Dong S'']) \<and>
      (rows ! 1) ''PubDate'' = Some (PStr ''2024 Jan''))"
proof -
  obtain rows where rows: "snd (article_details (canned_entrez recorded_uids recorded_docsums)
      (PList (map PStr recorded_uids))) = Inr rows"
    using recorded_details_ok ..
  have "1 < length recorded_docsums" by (simp add: recorded_docsums_def)
  from identity_fields_round_trip [OF recorded_join recorded_summary_all rows this]
  show ?thesis using rows by (simp add: recorded_docsums_def)
qed

text \<open>
  C6. Order. The table keeps the order of the response: it is as long as the response
  and its \<open>i\<close>-th row is the one built from the \<open>i\<close>-th record.
\<close>

theorem rows_keep_source_order:
  assumes "str_join '','' id_list = Inr ids"
    and "esummary_read E ''pubmed'' ids = Inr record_summary"
    and "snd (article_details E id_list) = Inr rows"
  shows "length rows = length record_summary \<and>
         (\<forall>i < length record_summary. article_info (record_summary ! i) = Inr (rows ! i))"
proof -
  have infos: "map article_info record_summary = map Inr rows"
    using article_details_rows [OF assms] .
  then have "length rows = length record_summary" by (metis length_map)
  moreover have "article_info (record_summary ! i) = Inr (rows ! i)"
    if "i < length record_summary" for i
    using infos that by (rule map_Inr_nth(1))
  ultimately show ?thesis by simp
qed

theorem rows_keep_source_order_witness:
  "\<exists>rows. snd (article_details (canned_entrez recorded_uids recorded_docsums)
               (PList (map PStr recorded_uids))) = Inr rows \<and>
          length rows = 3 \<and>
          article_info (recorded_docsums ! 0) = Inr (rows ! 0) \<and>
          article_info (recorded_docsums ! 1) = Inr (rows ! 1) \<and>
          article_info (recorded_docsums ! 2) = Inr (rows ! 2) \<and>
          (rows ! 0) ''ID'' = Some (PStr ''38370347'') \<and>
          (rows ! 1) ''ID'' = Some (PStr ''38328712'') \<and>
          (rows ! 2) ''ID'' = Some (PStr ''38303306'')"
proof -
  obtain rows where rows: "snd (article_details (canned_entrez recorded_uids recorded_docsums)
      (PList (map PStr recorded_uids))) = Inr rows"
    using recorded_details_ok ..
  note order = rows_keep_source_order [OF recorded_join recorded_summary_all rows]
  have len: "length rows = 3" using order recorded_rows_length by simp
  have built: "article_info (recorded_docsums ! 0) = Inr (rows ! 0)"
    "article_info (recorded_docsums ! 1) = Inr (rows ! 1)"
    "article_info (recorded_docsums ! 2) = Inr (rows ! 2)"
    using order recorded_rows_length by simp_all
  have ids: "(rows ! 0) ''ID'' = Some (PStr ''38370347'')"
    "(rows ! 1) ''ID'' = Some (PStr ''38328712'')"
    "(rows ! 2) ''ID'' = Some (PStr ''38303306'')"
    using article_info_values(1) [OF built(1)] article_info_values(1) [OF built(2)]
      article_info_values(1) [OF built(3)]
    by (simp_all add: recorded_docsums_def)
  show ?thesis
  proof (intro exI conjI)
    show "snd (article_details (canned_entrez recorded_uids recorded_docsums)
      (PList (map PStr recorded_uids))) = Inr rows" by (fact rows)
  qed (fact len built ids)+
qed

text \<open>
  C9. The link. In every row, \<open>Link PubMed\<close> is the string
  \<open>https://www.ncbi.nlm.nih.gov/pubmed/\<close> followed by the rendering of the record's
  \<open>Id\<close>, which is also the row's \<open>ID\<close>: the link is derivable from the \<open>ID\<close> field.
\<close>

theorem link_derived_from_id:
  assumes "str_join '','' id_list = Inr ids"
    and "esummary_read E ''pubmed'' ids = Inr record_summary"
    and "snd (article_details E id_list) = Inr rows"
    and "i < length record_summary"
  shows "\<exists>v. (record_summary ! i) ''Id'' = Some v \<and> (rows ! i) ''ID'' = Some v \<and>
           (rows ! i) ''Link PubMed'' =
             Some (PStr (''https://www.ncbi.nlm.nih.gov/pubmed/'' @ py_str v))"
proof -
  have "map article_info record_summary = map Inr rows"
    using article_details_rows [OF assms(1-3)] .
  then have built: "article_info (record_summary ! i) = Inr (rows ! i)"
    using assms(4) by (rule map_Inr_nth(1))
  show ?thesis
    using article_info_values(1) [OF built] article_info_values(6) [OF built] by auto
qed

theorem link_derived_from_id_witness:
  "\<exists>rows. snd (article_details (canned_entrez recorded_uids recorded_docsums)
               (PList (map PStr recorded_uids))) = Inr rows \<and>
          (rows ! 2) ''ID'' = Some (PStr ''38303306'') \<and>
          (rows ! 2) ''Link PubMed'' =
            Some (PStr ''https://www.ncbi.nlm.nih.gov/pubmed/38303306'')"
proof -
  obtain rows where rows: "snd (article_details (canned_entrez recorded_uids recorded_docsums)
      (PList (map PStr recorded_uids))) = Inr rows"
    using recorded_details_ok ..
  have "2 < length recorded_docsums" by (simp add: recorded_docsums_def)
  from link_derived_from_id [OF recorded_join recorded_summary_all rows this]
  have "(rows ! 2) ''ID'' = Some (PStr ''38303306'') \<and>
      (rows ! 2) ''Link PubMed'' = Some (PStr ''https://www.ncbi.nlm.nih.gov/pubmed/38303306'')"
    by (simp add: recorded_docsums_def)
  then show ?thesis using rows by (intro exI [of _ rows] conjI) simp_all
qed





lemma canned_search_contract:
  assumes "\<forall>u \<in> set uids. u \<noteq> [] \<and> set u \<subseteq> set ''0123456789''"
  shows "esearch_contract (canned_entrez uids docsums)"
  unfolding esearch_contract_def
proof (intro allI impI)
  fix db t n record_search
  assume "esearch_read (canned_entrez uids docsums) db t n = Inr record_search"
  then have rs: "record_search = Map.empty(''IdList'' \<mapsto> PList (map PStr (take (nat n) uids)))"
    by (simp add: canned_search)
  have "int (length (take (nat n) uids)) \<le> max 0 n" by simp
  moreover have "\<forall>u \<in> set (take (nat n) uids). u \<noteq> [] \<and> set u \<subseteq> set ''0123456789''"
    using assms by (meson in_set_takeD)
  ultimately show "\<exists>us. record_search ''IdList'' = Some (PList (map PStr us)) \<and>
      int (length us) \<le> max 0 n \<and> (\<forall>u \<in> set us. u \<noteq> [] \<and> set u \<subseteq> set ''0123456789'')"
    using rs by (intro exI [of _ "take (nat n) uids"]) simp
qed


lemma recorded_uids_digits:
  "\<forall>u \<in> set recorded_uids. u \<noteq> [] \<and> set u \<subseteq> set ''0123456789''"
  by (simp add: recorded_uids_def)


lemma search_articles_sent:
  "fst (search_articles E key_words date max_results) =
     [ESearch ''pubmed'' (py_str key_words @ ''[Title/Abstract] AND '' @ py_str date @ ''[PDAT]'')
        (case max_results of None \<Rightarrow> 10 | Some n \<Rightarrow> n)]"
  by (simp add: search_articles_def Let_def)

lemma search_articles_result:
  "snd (search_articles E key_words date max_results) =
     (case esearch_read E ''pubmed''
             (py_str key_words @ ''[Title/Abstract] AND '' @ py_str date @ ''[PDAT]'')
             (case max_results of None \<Rightarrow> 10 | Some n \<Rightarrow> n) of
        Inl e \<Rightarrow> Inl e
      | Inr record_search \<Rightarrow> getitem record_search ''IdList'')"
  by (simp add: search_articles_def Let_def)


section \<open>Properties of \<open>search_articles\<close> and of the whole run\<close>

text \<open>
  C8. The search term. For every \<open>key_words\<close> and every date string \<open>d\<close>, the term sent
  with the search request is \<open>str(key_words)\<close>, then \<open>[Title/Abstract] AND\<close> and a space,
  then \<open>d\<close>, then \<open>[PDAT]\<close>. When \<open>key_words\<close> is a list of strings the term starts with
  the list's bracketed representation, each string in quotes and the strings separated
  by a comma and a space; for \<open>["cancer", "brain"]\<close> and \<open>"2023"\<close> it is
  \<open>['cancer', 'brain'][Title/Abstract] AND 2023[PDAT]\<close>.
\<close>

theorem search_term_rendering:
  "fst (search_articles E key_words (PStr d) max_results) =
     [ESearch ''pubmed'' (py_str key_words @ ''[Title/Abstract] AND '' @ d @ ''[PDAT]'')
        (case max_results of None \<Rightarrow> 10 | Some n \<Rightarrow> n)] \<and>
   fst (search_articles E (PList (map PStr ws)) (PStr d) max_results) =
     [ESearch ''pubmed''
        ((''['' @ join_sep '', '' (map str_repr ws) @ '']'') @ ''[Title/Abstract] AND '' @ d @ ''[PDAT]'')
        (case max_results of None \<Rightarrow> 10 | Some n \<Rightarrow> n)] \<and>
   fst (search_articles E (PList [PStr ''cancer'', PStr ''brain'']) (PStr ''2023'') None) =
     [ESearch ''pubmed'' (''['' @ CHR 0x27 # ''cancer'' @ CHR 0x27 # '', '' @ CHR 0x27 # ''brain'' @ CHR 0x27 # ''][Title/Abstract] AND 2023[PDAT]'') 10]"
proof (intro conjI)
  show "fst (search_articles E key_words (PStr d) max_results) =
     [ESearch ''pubmed'' (py_str key_words @ ''[Title/Abstract] AND '' @ d @ ''[PDAT]'')
        (case max_results of None \<Rightarrow> 10 | Some n \<Rightarrow> n)]"
    by (simp add: search_articles_sent)
next
  have "map py_repr (map PStr ws) = map str_repr ws" by simp
  then show "fst (search_articles E (PList (map PStr ws)) (PStr d) max_results) =
     [ESearch ''pubmed''
        ((''['' @ join_sep '', '' (map str_repr ws) @ '']'') @ ''[Title/Abstract] AND '' @ d @ ''[PDAT]'')
        (case max_results of None \<Rightarrow> 10 | Some n \<Rightarrow> n)]"
    by (simp add: search_articles_sent del: map_map)
next
  show "fst (search_articles E (PList [PStr ''cancer'', PStr ''brain'']) (PStr ''2023'') None) =
     [ESearch ''pubmed'' (''['' @ CHR 0x27 # ''cancer'' @ CHR 0x27 # '', '' @ CHR 0x27 # ''brain'' @ CHR 0x27 # ''][Title/Abstract] AND 2023[PDAT]'') 10]"
    by (simp add: search_articles_sent str_repr_def repr_char_def Let_def)
qed

text \<open>
  C10, as amended. The default page size. Without \<open>max_results\<close> the search request
  carries \<open>retmax = 10\<close>, and the function returns the \<open>IdList\<close> of the answer as it is,
  without truncating it. So the list returned has at most 10 entries when the service
  honours \<open>retmax\<close>.
\<close>

theorem default_page_size:
  "fst (search_articles E key_words date None) =
     [ESearch ''pubmed'' (py_str key_words @ ''[Title/Abstract] AND '' @ py_str date @ ''[PDAT]'') 10] \<and>
   snd (search_articles E key_words date None) =
     (case esearch_read E ''pubmed''
             (py_str key_words @ ''[Title/Abstract] AND '' @ py_str date @ ''[PDAT]'') 10 of
        Inl e \<Rightarrow> Inl e
      | Inr record_search \<Rightarrow> getitem record_search ''IdList'') \<and>
   (honours_retmax E \<longrightarrow>
      (\<forall>v. snd (search_articles E key_words date None) = Inr v \<longrightarrow>
         (\<exists>found. v = PList found \<and> length found \<le> 10)))"
proof (intro conjI impI allI)
  show "fst (search_articles E key_words date None) =
     [ESearch ''pubmed'' (py_str key_words @ ''[Title/Abstract] AND '' @ py_str date @ ''[PDAT]'') 10]"
    by (simp add: search_articles_sent)
next
  show "snd (search_articles E key_words date None) =
     (case esearch_read E ''pubmed''
             (py_str key_words @ ''[Title/Abstract] AND '' @ py_str date @ ''[PDAT]'') 10 of
        Inl e \<Rightarrow> Inl e
      | Inr record_search \<Rightarrow> getitem record_search ''IdList'')"
    by (simp add: search_articles_result)
next
  fix v
  let ?t = "py_str key_words @ ''[Title/Abstract] AND '' @ py_str date @ ''[PDAT]''"
  assume promise: "honours_retmax E"
    and "snd (search_articles E key_words date None) = Inr v"
  then obtain record_search where rs: "esearch_read E ''pubmed'' ?t 10 = Inr record_search"
    and got: "getitem record_search ''IdList'' = Inr v"
    unfolding search_articles_result by (auto split: sum.splits)
  obtain found where "record_search ''IdList'' = Some (PList found)"
    and "int (length found) \<le> max 0 10"
    using promise rs unfolding honours_retmax_def by blast
  then show "\<exists>found. v = PList found \<and> length found \<le> 10"
    using got by (auto simp: getitem_def)
qed

lemma esearch_contract_retmax:
  assumes "esearch_contract E"
  shows "honours_retmax E"
  unfolding honours_retmax_def
proof (intro allI impI)
  fix db t n record_search
  assume "esearch_read E db t n = Inr record_search"
  then obtain uids where "record_search ''IdList'' = Some (PList (map PStr uids))"
    and "int (length uids) \<le> max 0 n"
    using assms unfolding esearch_contract_def by blast
  then show "\<exists>found. record_search ''IdList'' = Some (PList found) \<and>
      int (length found) \<le> max 0 n"
    by (intro exI [of _ "map PStr uids"]) simp
qed

lemma four_batches_digits:
  "\<forall>u \<in> set (recorded_uids @ recorded_uids @ recorded_uids @ recorded_uids).
     u \<noteq> [] \<and> set u \<subseteq> set ''0123456789''"
  using recorded_uids_digits by auto

theorem default_page_size_witness:
  "honours_retmax
     (canned_entrez (recorded_uids @ recorded_uids @ recorded_uids @ recorded_uids) []) \<and>
   length (recorded_uids @ recorded_uids @ recorded_uids @ recorded_uids) = 12 \<and>
   (\<exists>found. snd (search_articles
                  (canned_entrez (recorded_uids @ recorded_uids @ recorded_uids @ recorded_uids) [])
                  (PList [PStr ''cancer'', PStr ''brain'']) (PStr ''2023'') None)
             = Inr (PList found) \<and> length found \<le> 10)"
proof -
  let ?E = "canned_entrez (recorded_uids @ recorded_uids @ recorded_uids @ recorded_uids) []"
  have "esearch_contract ?E"
    using four_batches_digits by (rule canned_search_contract)
  then have promise: "honours_retmax ?E" by (rule esearch_contract_retmax)
  have "\<exists>v. snd (search_articles ?E (PList [PStr ''cancer'', PStr ''brain'']) (PStr ''2023'') None)
      = Inr v"
    by (simp add: search_articles_result canned_search getitem_def)
  then obtain v where v: "snd (search_articles ?E (PList [PStr ''cancer'', PStr ''brain''])
      (PStr ''2023'') None) = Inr v" ..
  have "\<exists>found. v = PList found \<and> length found \<le> 10"
    using default_page_size [of ?E "PList [PStr ''cancer'', PStr ''brain'']" "PStr ''2023''",
        THEN conjunct2, THEN conjunct2, THEN mp, OF promise, THEN spec, THEN mp, OF v] .
  moreover have "length (recorded_uids @ recorded_uids @ recorded_uids @ recorded_uids) = 12"
    by (simp add: recorded_uids_def)
  ultimately show ?thesis using promise v by auto
qed

text \<open>
  A service that answers with twelve identifiers whatever \<open>retmax\<close> is: the request
  carries \<open>retmax = 10\<close> and the function returns all twelve.
\<close>

theorem default_page_size_counterexample:
  "fst (search_articles
          (greedy_entrez (recorded_uids @ recorded_uids @ recorded_uids @ recorded_uids) [])
          (PList [PStr ''cancer'', PStr ''brain'']) (PStr ''2023'') None) =
     [ESearch ''pubmed''
        (''['' @ CHR 0x27 # ''cancer'' @ CHR 0x27 # '', '' @ CHR 0x27 # ''brain'' @ CHR 0x27 #
         ''][Title/Abstract] AND 2023[PDAT]'') 10] \<and>
   snd (search_articles
          (greedy_entrez (recorded_uids @ recorded_uids @ recorded_uids @ recorded_uids) [])
          (PList [PStr ''cancer'', PStr ''brain'']) (PStr ''2023'') None) =
     Inr (PList (map PStr (recorded_uids @ recorded_uids @ recorded_uids @ recorded_uids))) \<and>
   length (map PStr (recorded_uids @ recorded_uids @ recorded_uids @ recorded_uids)) = 12 \<and>
   \<not> length (map PStr (recorded_uids @ recorded_uids @ recorded_uids @ recorded_uids)) \<le> 10"
proof (intro conjI)
  show "fst (search_articles
          (greedy_entrez (recorded_uids @ recorded_uids @ recorded_uids @ recorded_uids) [])
          (PList [PStr ''cancer'', PStr ''brain'']) (PStr ''2023'') None) =
     [ESearch ''pubmed''
        (''['' @ CHR 0x27 # ''cancer'' @ CHR 0x27 # '', '' @ CHR 0x27 # ''brain'' @ CHR 0x27 #
         ''][Title/Abstract] AND 2023[PDAT]'') 10]"
    by (simp add: search_articles_sent str_repr_def repr_char_def Let_def)
  show "snd (search_articles
          (greedy_entrez (recorded_uids @ recorded_uids @ recorded_uids @ recorded_uids) [])
          (PList [PStr ''cancer'', PStr ''brain'']) (PStr ''2023'') None) =
     Inr (PList (map PStr (recorded_uids @ recorded_uids @ recorded_uids @ recorded_uids)))"
    by (simp add: search_articles_result greedy_entrez_def getitem_def)
  show "length (map PStr (recorded_uids @ recorded_uids @ recorded_uids @ recorded_uids)) = 12"
    by (simp add: recorded_uids_def)
  show "\<not> length (map PStr (recorded_uids @ recorded_uids @ recorded_uids @ recorded_uids)) \<le> 10"
    by (simp add: recorded_uids_def)
qed







lemma concat_if_filter:
  "concat (map (\<lambda>x. if P x then [f x] else []) xs) = map f (filter P xs)"
  by (induction xs) simp_all

lemma join_tables_concat:
  "join_tables A B K =
     concat (map (\<lambda>a. map (\<lambda>b. a ++ b) (filter (\<lambda>b. a K \<noteq> None \<and> a K = b K) B)) A)"
  unfolding join_tables_def concat_if_filter ..

lemma unique_key_filter:
  assumes "distinct (map (\<lambda>b. b K) B)" and "b0 \<in> set B"
  shows "filter (\<lambda>b. b0 K = b K) B = [b0]"
  using assms
proof (induction B)
  case Nil
  then show ?case by simp
next
  case (Cons b B)
  show ?case
  proof (cases "b = b0")
    case True
    then have "\<forall>x \<in> set B. b0 K \<noteq> x K" using Cons.prems(1) by auto
    then have "filter (\<lambda>b. b0 K = b K) B = []" by (simp add: filter_empty_conv)
    then show ?thesis using True by simp
  next
    case False
    then have in_rest: "b0 \<in> set B" using Cons.prems(2) by simp
    then have "b0 K \<in> set (map (\<lambda>b. b K) B)" by simp
    moreover have "b K \<notin> set (map (\<lambda>b. b K) B)" using Cons.prems(1) by simp
    ultimately have "b0 K \<noteq> b K" by metis
    then show ?thesis using Cons.IH in_rest Cons.prems(1) by simp
  qed
qed

lemma joined_row_rejoins:
  assumes "distinct (map (\<lambda>b. b K) B)" and "r \<in> set (join_tables A B K)"
  shows "map (\<lambda>b. r ++ b) (filter (\<lambda>b. r K \<noteq> None \<and> r K = b K) B) = [r]"
proof -
  have "\<exists>a \<in> set A. \<exists>b0 \<in> set B. a K \<noteq> None \<and> a K = b0 K \<and> r = a ++ b0"
    using assms(2) unfolding join_tables_concat by auto
  then obtain a b0 where "a \<in> set A" and b0: "b0 \<in> set B"
    and key: "a K \<noteq> None" "a K = b0 K" and r: "r = a ++ b0"
    by blast
  have rk: "r K = b0 K" using key r by (auto simp: map_add_def split: option.splits)
  then have "r K \<noteq> None" using key by simp
  then have "filter (\<lambda>b. r K \<noteq> None \<and> r K = b K) B = filter (\<lambda>b. b0 K = b K) B"
    using rk by simp
  also have "\<dots> = [b0]" using assms(1) b0 by (rule unique_key_filter)
  finally have "filter (\<lambda>b. r K \<noteq> None \<and> r K = b K) B = [b0]" .
  moreover have "r ++ b0 = r" unfolding r by (rule ext) (simp add: map_add_def split: option.splits)
  ultimately show ?thesis by simp
qed

section \<open>Join idempotence\<close>

text \<open>
  C7. Join idempotence. When the values of the key \<open>K\<close> are unique in \<open>B\<close>, joining \<open>A\<close>
  with \<open>B\<close> on \<open>K\<close> and joining the result with \<open>B\<close> on \<open>K\<close> again gives the table of
  the first join: the same rows, hence the same row set, and no duplication.
\<close>

theorem join_idempotent:
  assumes "distinct (map (\<lambda>b. b K) B)"
  shows "join_tables (join_tables A B K) B K = join_tables A B K \<and>
         set (join_tables (join_tables A B K) B K) = set (join_tables A B K)"
proof -
  let ?J = "join_tables A B K"
  have "map (\<lambda>r. map (\<lambda>b. r ++ b) (filter (\<lambda>b. r K \<noteq> None \<and> r K = b K) B)) ?J =
      map (\<lambda>r. [r]) ?J"
    using joined_row_rejoins [OF assms] by (intro map_cong) auto
  then have "join_tables ?J B K = concat (map (\<lambda>r. [r]) ?J)"
    by (simp only: join_tables_concat [of ?J])
  then show ?thesis by simp
qed

lemma series_b_unique: "distinct (map (\<lambda>b. b ''date'') series_b)"
  by (simp add: series_b_def)

lemma series_join_length: "length (join_tables series_a series_b ''date'') = 2"
  by (simp add: join_tables_def series_a_def series_b_def)

theorem join_idempotent_witness:
  "distinct (map (\<lambda>b. b ''date'') series_b) \<and>
   length (join_tables series_a series_b ''date'') = 2 \<and>
   join_tables (join_tables series_a series_b ''date'') series_b ''date'' =
     join_tables series_a series_b ''date''"
  using join_idempotent [OF series_b_unique, of series_a] series_b_unique series_join_length
  by simp

end
